theory Spec2Isabelle
  imports Main "HOL-Library.Multiset"
begin

section \<open>JavaScript arrays and values\<close>

text \<open>
  A cell of the slot board. The TypeScript type is \<open>(BrandId | null)[]\<close>; at run time an
  array can also hold \<open>undefined\<close> and, after a write beyond its length, holes. A hole
  reads as \<open>undefined\<close>, is skipped by \<open>forEach\<close> and becomes a real \<open>undefined\<close>
  when the array is copied with the spread syntax.
\<close>

datatype cell = Null | Item string | Undef | Hole

definition js_spread :: "cell list \<Rightarrow> cell list" where
  "js_spread xs = map (\<lambda>c. if c = Hole then Undef else c) xs"

definition js_get :: "cell list \<Rightarrow> nat \<Rightarrow> cell" where
  "js_get xs i = (if i < length xs then (if xs ! i = Hole then Undef else xs ! i) else Undef)"

definition js_set :: "cell list \<Rightarrow> nat \<Rightarrow> cell \<Rightarrow> cell list" where
  "js_set xs i v =
     (if i < length xs then xs[i := v]
      else xs @ replicate (i - length xs) Hole @ [v])"

text \<open>\<open>targetSequence[index]\<close>: the target is a dense array of brand ids.\<close>

definition target_at :: "string list \<Rightarrow> nat \<Rightarrow> cell" where
  "target_at t i = (if i < length t then Item (t ! i) else Undef)"

text \<open>\<open>currentSlots.some(s => s === null)\<close> and \<open>currentSlots.includes(id)\<close>.\<close>

definition some_null :: "cell list \<Rightarrow> bool" where
  "some_null xs = (Null \<in> set xs)"

definition js_includes :: "cell list \<Rightarrow> string \<Rightarrow> bool" where
  "js_includes xs b = (Item b \<in> set xs)"

text \<open>\<open>currentSlots.indexOf(null)\<close>, with \<open>None\<close> for \<open>-1\<close>.\<close>

fun indexOf_null :: "cell list \<Rightarrow> nat \<Rightarrow> nat option" where
  "indexOf_null [] k = None"
| "indexOf_null (c # cs) k = (if c = Null then Some k else indexOf_null cs (Suc k))"

subsection \<open>Array.prototype.sort\<close>

text \<open>
  The engine's sorting routine is not part of the repository. It is modelled as a stable
  insertion sort that calls the comparator and only rearranges the elements it is given.
  The comparator may have an effect (\<open>Math.random\<close>), so it threads a state \<open>'s\<close>; the
  element \<open>x\<close> is placed before the first \<open>y\<close> with \<open>comparefn(x, y) \<le> 0\<close>.
\<close>

fun js_insert :: "('s \<Rightarrow> 'a \<Rightarrow> 'a \<Rightarrow> int \<times> 's) \<Rightarrow> 'a \<Rightarrow> 'a list \<Rightarrow> 's \<Rightarrow> 'a list \<times> 's" where
  "js_insert cmp x [] s = ([x], s)"
| "js_insert cmp x (y # ys) s =
     (case cmp s x y of
        (c, s') \<Rightarrow>
          if c \<le> 0 then (x # y # ys, s')
          else (case js_insert cmp x ys s' of (zs, s'') \<Rightarrow> (y # zs, s'')))"

fun js_sort :: "('s \<Rightarrow> 'a \<Rightarrow> 'a \<Rightarrow> int \<times> 's) \<Rightarrow> 'a list \<Rightarrow> 's \<Rightarrow> 'a list \<times> 's" where
  "js_sort cmp [] s = ([], s)"
| "js_sort cmp (x # xs) s =
     (case js_sort cmp xs s of (ys, s') \<Rightarrow> js_insert cmp x ys s')"

section \<open>constants.ts\<close>

text \<open>
  A catalog entry. The fields \<open>name\<close> and \<open>icon\<close> hold display text only and are left out.
\<close>

record SodaBrand =
  brand_id :: string
  color :: string
  accent :: string
  textColor :: string

definition mk_brand :: "string \<Rightarrow> string \<Rightarrow> string \<Rightarrow> string \<Rightarrow> SodaBrand" where
  "mk_brand i c a t = \<lparr>brand_id = i, color = c, accent = a, textColor = t\<rparr>"

definition BRANDS :: "SodaBrand list" where
  "BRANDS =
    [mk_brand ''cola'' ''#e11d48'' ''#f43f5e'' ''#ffffff'',
     mk_brand ''lime'' ''#16a34a'' ''#22c55e'' ''#ffffff'',
     mk_brand ''orange'' ''#ea580c'' ''#f97316'' ''#ffffff'',
     mk_brand ''grape'' ''#7e22ce'' ''#9333ea'' ''#ffffff'',
     mk_brand ''water'' ''#0284c7'' ''#0ea5e9'' ''#ffffff'',
     mk_brand ''energy'' ''#eab308'' ''#facc15'' ''#000000'',
     mk_brand ''peach'' ''#f472b6'' ''#ec4899'' ''#ffffff'',
     mk_brand ''coffee'' ''#78350f'' ''#92400e'' ''#ffffff'',
     mk_brand ''mint'' ''#0d9488'' ''#14b8a6'' ''#ffffff'',
     mk_brand ''berry'' ''#4338ca'' ''#6366f1'' ''#ffffff'']"

definition DEFAULT_GAME_SIZE :: nat where
  "DEFAULT_GAME_SIZE = 5"

section \<open>The game state\<close>

datatype GameStatus = Playing | Won

datatype zone = Inventory | Slot

datatype sound = Pickup | Drop | Confirm | Win | Click | Remove

record HistoryEntry =
  h_id :: int
  arrangement :: "cell list"
  correctCount :: nat
  h_timestamp :: int

record GameRecord =
  r_id :: int
  r_timestamp :: int
  attempts :: nat
  durationSeconds :: int
  difficulty :: nat
  r_targetSequence :: "string list"

text \<open>
  What the callback handed to \<open>setTimeout\<close> in \<open>checkSolution\<close> has captured: the
  values of the render in which the confirm happened.
\<close>

record win_closure =
  c_newHistory :: "HistoryEntry list"
  c_elapsedTime :: int
  c_gameSize :: nat
  c_targetSequence :: "string list"
  c_records :: "GameRecord list"

record drag_item =
  d_source :: zone
  d_brandId :: string
  d_index :: "nat option"

text \<open>
  The component state of \<open>App\<close>, the two \<open>localStorage\<close> keys, the pending timeouts and
  the log of feedback sounds emitted so far. Times are the milliseconds of \<open>Date.now()\<close>;
  an id is the number whose decimal string the source stores.
\<close>

record game_state =
  gameSize :: nat
  targetSequence :: "string list"
  currentSlots :: "cell list"
  history :: "HistoryEntry list"
  gameStatus :: GameStatus
  records :: "GameRecord list"
  maxUnlockedLevel :: nat
  startTime :: int
  elapsedTime :: int
  showInstructions :: bool
  showWinModal :: bool
  showLevelMenu :: bool
  touchDragItem :: "drag_item option"
  touchDragPos :: "(int \<times> int) option"
  stored_max_level :: "nat option"
  stored_records :: "GameRecord list option"
  timeouts :: "win_closure list"
  sounds :: "sound list"

text \<open>The initial values given to \<open>useState\<close>, with an empty store.\<close>

definition initial_state :: game_state where
  "initial_state =
     \<lparr>gameSize = DEFAULT_GAME_SIZE, targetSequence = [], currentSlots = [], history = [],
      gameStatus = Playing, records = [], maxUnlockedLevel = DEFAULT_GAME_SIZE,
      startTime = 0, elapsedTime = 0, showInstructions = True, showWinModal = False,
      showLevelMenu = False, touchDragItem = None, touchDragPos = None,
      stored_max_level = None, stored_records = None, timeouts = [], sounds = []\<rparr>"

definition playSound :: "sound \<Rightarrow> game_state \<Rightarrow> game_state" where
  "playSound x s = s\<lparr>sounds := sounds s @ [x]\<rparr>"

definition activeBrands :: "game_state \<Rightarrow> SodaBrand list" where
  "activeBrands s = take (gameSize s) BRANDS"

definition availableInventory :: "game_state \<Rightarrow> SodaBrand list" where
  "availableInventory s =
     filter (\<lambda>brand. \<not> js_includes (currentSlots s) (brand_id brand)) (activeBrands s)"

section \<open>initGame\<close>

text \<open>
  The comparator \<open>() => Math.random() - 0.5\<close> ignores its arguments. Its results are
  an infinite sequence \<open>r\<close> with \<open>r k\<close> the sign (negative, zero or positive) of the
  \<open>k\<close>-th value of \<open>Math.random() - 0.5\<close>; the state is the number of calls made.
\<close>

definition random_cmp :: "(nat \<Rightarrow> int) \<Rightarrow> nat \<Rightarrow> 'a \<Rightarrow> 'a \<Rightarrow> int \<times> nat" where
  "random_cmp r k a b = (r k, Suc k)"

definition shuffled :: "(nat \<Rightarrow> int) \<Rightarrow> nat \<Rightarrow> SodaBrand list" where
  "shuffled r sz =
     (let safeSize = min sz (length BRANDS);
          currentActiveBrands = take safeSize BRANDS
      in fst (js_sort (random_cmp r) currentActiveBrands 0))"

definition initGame :: "(nat \<Rightarrow> int) \<Rightarrow> int \<Rightarrow> nat \<Rightarrow> game_state \<Rightarrow> game_state" where
  "initGame r now sz s =
     (let safeSize = min sz (length BRANDS)
      in playSound Click
           (s\<lparr>targetSequence := map brand_id (shuffled r sz),
              currentSlots := replicate safeSize Null,
              history := [],
              gameStatus := Playing,
              showWinModal := False,
              showLevelMenu := False,
              startTime := now,
              elapsedTime := 0\<rparr>))"

section \<open>executeMove\<close>

definition executeMove ::
  "zone \<Rightarrow> string \<Rightarrow> nat option \<Rightarrow> zone \<Rightarrow> nat option \<Rightarrow> game_state \<Rightarrow> game_state" where
  "executeMove source sourceBrandId sourceIndex targetType targetIndex s =
     (let newSlots = js_spread (currentSlots s)
      in case (targetType, targetIndex) of
           (Slot, Some ti) \<Rightarrow>
             (case (source, sourceIndex) of
                (Inventory, _) \<Rightarrow>
                  playSound Drop (s\<lparr>currentSlots := js_set newSlots ti (Item sourceBrandId)\<rparr>)
              | (Slot, Some si) \<Rightarrow>
                  (let existingAtTarget = js_get newSlots ti;
                       placed = js_set newSlots ti (Item sourceBrandId)
                   in playSound Drop (s\<lparr>currentSlots := js_set placed si existingAtTarget\<rparr>))
              | (Slot, None) \<Rightarrow> s\<lparr>currentSlots := newSlots\<rparr>)
         | (Slot, None) \<Rightarrow> s\<lparr>currentSlots := newSlots\<rparr>
         | (Inventory, _) \<Rightarrow>
             (case (source, sourceIndex) of
                (Slot, Some si) \<Rightarrow> playSound Remove (s\<lparr>currentSlots := js_set newSlots si Null\<rparr>)
              | _ \<Rightarrow> s\<lparr>currentSlots := newSlots\<rparr>))"

section \<open>checkSolution\<close>

text \<open>
  The \<open>forEach\<close> loop of the scorer, with its running index and counter. Holes are
  skipped; every other element is compared with \<open>===\<close> against \<open>targetSequence[index]\<close>.
\<close>

fun count_loop :: "cell list \<Rightarrow> nat \<Rightarrow> string list \<Rightarrow> nat \<Rightarrow> nat" where
  "count_loop [] index target n = n"
| "count_loop (brand # rest) index target n =
     (if brand \<noteq> Hole \<and> brand = target_at target index
      then count_loop rest (Suc index) target (Suc n)
      else count_loop rest (Suc index) target n)"

definition score :: "cell list \<Rightarrow> string list \<Rightarrow> nat" where
  "score currentGuess target = count_loop currentGuess 0 target 0"

definition checkSolution :: "int \<Rightarrow> int \<Rightarrow> game_state \<Rightarrow> game_state" where
  "checkSolution t_id t_stamp s =
     (if some_null (currentSlots s) then s
      else
        (let currentGuess = currentSlots s;
             n = score currentGuess (targetSequence s);
             newEntry = \<lparr>h_id = t_id, arrangement = js_spread currentGuess,
                         correctCount = n, h_timestamp = t_stamp\<rparr>;
             newHistory = newEntry # history s;
             s1 = (playSound Confirm s)\<lparr>history := newHistory\<rparr>
         in if n = gameSize s then
              (let s2 = (if gameSize s = maxUnlockedLevel s \<and> gameSize s < length BRANDS
                         then s1\<lparr>maxUnlockedLevel := gameSize s + 1,
                                 stored_max_level := Some (gameSize s + 1)\<rparr>
                         else s1)
               in s2\<lparr>timeouts := timeouts s2 @
                       [\<lparr>c_newHistory = newHistory, c_elapsedTime = elapsedTime s,
                         c_gameSize = gameSize s, c_targetSequence = targetSequence s,
                         c_records = records s\<rparr>]\<rparr>)
            else s1))"

text \<open>The callback of the 500 ms timeout, run for the oldest pending timeout.\<close>

definition winTimeout :: "int \<Rightarrow> int \<Rightarrow> game_state \<Rightarrow> game_state" where
  "winTimeout t_id t_stamp s =
     (case timeouts s of
        [] \<Rightarrow> s
      | c # rest \<Rightarrow>
          (let newRecord = \<lparr>r_id = t_id, r_timestamp = t_stamp,
                            attempts = length (c_newHistory c),
                            durationSeconds = c_elapsedTime c,
                            difficulty = c_gameSize c,
                            r_targetSequence = c_targetSequence c\<rparr>;
               updatedRecords = c_records c @ [newRecord]
           in (playSound Win s)\<lparr>timeouts := rest, gameStatus := Won, showWinModal := True,
                                 records := updatedRecords,
                                 stored_records := Some updatedRecords\<rparr>))"

text \<open>The condition under which \<open>checkSolution\<close> takes its win branch.\<close>

definition wins :: "game_state \<Rightarrow> bool" where
  "wins s =
     (\<not> some_null (currentSlots s) \<and> score (currentSlots s) (targetSequence s) = gameSize s)"

section \<open>Input handlers\<close>

text \<open>
  The drop handlers of the pointer path read the payload written at drag start:
  the source, the brand id and, when it was set, the index.
\<close>

definition handleDropOnSlot ::
  "zone \<Rightarrow> string \<Rightarrow> nat option \<Rightarrow> nat \<Rightarrow> game_state \<Rightarrow> game_state" where
  "handleDropOnSlot source brandId sourceIndex targetIndex s =
     (if gameStatus s \<noteq> Playing then s
      else executeMove source brandId sourceIndex Slot (Some targetIndex) s)"

definition handleDropOnInventory ::
  "zone \<Rightarrow> string \<Rightarrow> nat option \<Rightarrow> game_state \<Rightarrow> game_state" where
  "handleDropOnInventory source brandId sourceIndex s =
     (if gameStatus s \<noteq> Playing then s
      else executeMove source brandId sourceIndex Inventory None s)"

definition handleTouchStart ::
  "zone \<Rightarrow> string \<Rightarrow> nat option \<Rightarrow> int \<Rightarrow> int \<Rightarrow> game_state \<Rightarrow> game_state" where
  "handleTouchStart source brandId index x y s =
     (if gameStatus s \<noteq> Playing then s
      else playSound Pickup
             (s\<lparr>touchDragItem := Some \<lparr>d_source = source, d_brandId = brandId, d_index = index\<rparr>,
                touchDragPos := Some (x, y)\<rparr>))"

definition handleTouchMove :: "int \<Rightarrow> int \<Rightarrow> game_state \<Rightarrow> game_state" where
  "handleTouchMove x y s =
     (if touchDragItem s = None then s else s\<lparr>touchDragPos := Some (x, y)\<rparr>)"

text \<open>
  What \<open>document.elementFromPoint\<close> and the two \<open>closest\<close> lookups find under the
  finger: no element, an element inside the slot with the given \<open>data-slot-index\<close>, an
  element inside the inventory drop zone, or any other element. A slot wins over the
  inventory, as in the \<open>if\<close>/\<open>else if\<close> of the source.
\<close>

datatype release_target = NoElement | OverSlot nat | OverInventory | Elsewhere

definition handleTouchEnd :: "release_target \<Rightarrow> game_state \<Rightarrow> game_state" where
  "handleTouchEnd released s =
     (case (touchDragItem s, touchDragPos s) of
        (Some item, Some pos) \<Rightarrow>
          (let s' = s\<lparr>touchDragItem := None, touchDragPos := None\<rparr>
           in case released of
                NoElement \<Rightarrow> s'
              | OverSlot targetIndex \<Rightarrow>
                  executeMove (d_source item) (d_brandId item) (d_index item)
                    Slot (Some targetIndex) s'
              | OverInventory \<Rightarrow>
                  executeMove (d_source item) (d_brandId item) (d_index item) Inventory None s'
              | Elsewhere \<Rightarrow> s')
      | _ \<Rightarrow> s)"

definition handleInventoryClick :: "string \<Rightarrow> game_state \<Rightarrow> game_state" where
  "handleInventoryClick brandId s =
     (if gameStatus s \<noteq> Playing then s
      else case indexOf_null (currentSlots s) 0 of
             Some firstEmptyIndex \<Rightarrow>
               playSound Drop
                 (s\<lparr>currentSlots :=
                      js_set (js_spread (currentSlots s)) firstEmptyIndex (Item brandId)\<rparr>)
           | None \<Rightarrow> playSound Click s)"

definition handleSlotClick :: "nat \<Rightarrow> game_state \<Rightarrow> game_state" where
  "handleSlotClick index s =
     (if gameStatus s \<noteq> Playing then s
      else if js_get (currentSlots s) index \<noteq> Null
      then playSound Remove (s\<lparr>currentSlots := js_set (js_spread (currentSlots s)) index Null\<rparr>)
      else s)"

section \<open>Level handlers\<close>

definition handleNextLevel :: "(nat \<Rightarrow> int) \<Rightarrow> int \<Rightarrow> game_state \<Rightarrow> game_state" where
  "handleNextLevel r now s =
     (if gameSize s < length BRANDS
      then (let newSize = gameSize s + 1 in initGame r now newSize (s\<lparr>gameSize := newSize\<rparr>))
      else s)"

definition handleRetryLevel :: "(nat \<Rightarrow> int) \<Rightarrow> int \<Rightarrow> game_state \<Rightarrow> game_state" where
  "handleRetryLevel r now s = initGame r now (gameSize s) s"

definition handleSelectLevel :: "nat \<Rightarrow> (nat \<Rightarrow> int) \<Rightarrow> int \<Rightarrow> game_state \<Rightarrow> game_state" where
  "handleSelectLevel level r now s =
     (if level \<le> maxUnlockedLevel s then initGame r now level (s\<lparr>gameSize := level\<rparr>)
      else playSound Click s)"

text \<open>
  The button of the win dialog shown after replaying a level below the frontier. It is
  rendered only under the condition tested here.
\<close>

definition nextUnlockedLevel :: "(nat \<Rightarrow> int) \<Rightarrow> int \<Rightarrow> game_state \<Rightarrow> game_state" where
  "nextUnlockedLevel r now s =
     (if gameSize s < length BRANDS \<and> gameSize s < maxUnlockedLevel s
      then (let next = gameSize s + 1 in initGame r now next (s\<lparr>gameSize := next\<rparr>))
      else s)"

text \<open>
  The timer effect, run after a render in which one of its dependencies changed, and
  the callback of the one-second interval it installs.
\<close>

definition timerEffect :: "int \<Rightarrow> game_state \<Rightarrow> game_state" where
  "timerEffect now s =
     (if gameStatus s = Playing \<and> \<not> showInstructions s \<and> \<not> showLevelMenu s
        \<and> startTime s = 0
      then s\<lparr>startTime := now\<rparr>
      else s)"

definition timerTick :: "int \<Rightarrow> game_state \<Rightarrow> game_state" where
  "timerTick now s =
     (if gameStatus s = Playing \<and> \<not> showInstructions s \<and> \<not> showLevelMenu s
      then s\<lparr>elapsedTime := (now - startTime s) div 1000\<rparr>
      else s)"

section \<open>Events\<close>

text \<open>
  What can happen during play: each event runs one handler, effect or callback to
  completion. Events that start a game carry the draws of \<open>Math.random\<close> and the
  clock reading; a confirm and a timeout carry the two clock readings they take.
\<close>

datatype event =
    DropOnSlot zone string "nat option" nat
  | DropOnInventory zone string "nat option"
  | TouchStart zone string "nat option" int int
  | TouchMove int int
  | TouchEnd release_target
  | InventoryClick string
  | SlotClick nat
  | ConfirmClick int int
  | TimeoutFires int int
  | NextLevel "nat \<Rightarrow> int" int
  | NextUnlocked "nat \<Rightarrow> int" int
  | RetryLevel "nat \<Rightarrow> int" int
  | SelectLevel nat "nat \<Rightarrow> int" int
  | TimerEffect int
  | TimerTick int
  | OpenLevelMenu
  | CloseLevelMenu
  | OpenInstructions
  | CloseInstructions int
  | CloseWinModal

fun step :: "event \<Rightarrow> game_state \<Rightarrow> game_state" where
  "step (DropOnSlot source brandId sourceIndex targetIndex) s =
     handleDropOnSlot source brandId sourceIndex targetIndex s"
| "step (DropOnInventory source brandId sourceIndex) s =
     handleDropOnInventory source brandId sourceIndex s"
| "step (TouchStart source brandId index x y) s = handleTouchStart source brandId index x y s"
| "step (TouchMove x y) s = handleTouchMove x y s"
| "step (TouchEnd released) s = handleTouchEnd released s"
| "step (InventoryClick brandId) s = handleInventoryClick brandId s"
| "step (SlotClick index) s = handleSlotClick index s"
| "step (ConfirmClick t_id t_stamp) s = checkSolution t_id t_stamp s"
| "step (TimeoutFires t_id t_stamp) s = winTimeout t_id t_stamp s"
| "step (NextLevel r now) s = handleNextLevel r now s"
| "step (NextUnlocked r now) s = nextUnlockedLevel r now s"
| "step (RetryLevel r now) s = handleRetryLevel r now s"
| "step (SelectLevel level r now) s = handleSelectLevel level r now s"
| "step (TimerEffect now) s = timerEffect now s"
| "step (TimerTick now) s = timerTick now s"
| "step OpenLevelMenu s = playSound Click (s\<lparr>showLevelMenu := True\<rparr>)"
| "step CloseLevelMenu s = s\<lparr>showLevelMenu := False\<rparr>"
| "step OpenInstructions s = playSound Click (s\<lparr>showInstructions := True\<rparr>)"
| "step (CloseInstructions now) s =
     (let s' = playSound Click (s\<lparr>showInstructions := False\<rparr>)
      in if startTime s = 0 then s'\<lparr>startTime := now\<rparr> else s')"
| "step CloseWinModal s = playSound Click (s\<lparr>showWinModal := False\<rparr>)"

fun run :: "event list \<Rightarrow> game_state \<Rightarrow> game_state" where
  "run [] s = s"
| "run (e # es) s = run es (step e s)"

section \<open>Boards, inventory and moves supplied by the input adapters\<close>

text \<open>A board as its TypeScript type describes it: every cell is \<open>null\<close> or a brand id.\<close>

definition is_slot_board :: "cell list \<Rightarrow> bool" where
  "is_slot_board xs = (Undef \<notin> set xs \<and> Hole \<notin> set xs)"

text \<open>The brand ids on the board, in slot order, and the board on which none repeats.\<close>

fun placed_items :: "cell list \<Rightarrow> string list" where
  "placed_items [] = []"
| "placed_items (Item b # cs) = b # placed_items cs"
| "placed_items (c # cs) = placed_items cs"

definition no_item_twice :: "cell list \<Rightarrow> bool" where
  "no_item_twice xs = distinct (placed_items xs)"

definition board_inv :: "game_state \<Rightarrow> bool" where
  "board_inv s =
     (is_slot_board (currentSlots s) \<and> length (currentSlots s) = gameSize s
      \<and> no_item_twice (currentSlots s))"

definition inventory_ids :: "game_state \<Rightarrow> string list" where
  "inventory_ids s = map brand_id (availableInventory s)"

definition active_ids :: "game_state \<Rightarrow> string list" where
  "active_ids s = map brand_id (activeBrands s)"

text \<open>
  The arguments of one \<open>executeMove\<close> call: source, brand id, source index, target type
  and target index.
\<close>

type_synonym move = "zone \<times> string \<times> nat option \<times> zone \<times> nat option"

fun apply_move :: "move \<Rightarrow> game_state \<Rightarrow> game_state" where
  "apply_move (source, sourceBrandId, sourceIndex, targetType, targetIndex) s =
     executeMove source sourceBrandId sourceIndex targetType targetIndex s"

text \<open>
  The moves the rendered page can produce in state \<open>s\<close>. A drag starts on a can of the
  inventory tray, which lists \<open>availableInventory\<close> and passes no index, or on the can of
  a rendered slot \<open>i < gameSize\<close> whose cell is a brand id, and passes that id and \<open>i\<close>.
  It ends on a rendered slot \<open>j < gameSize\<close> or on the inventory tray.
\<close>

fun adapter_supplies :: "game_state \<Rightarrow> move \<Rightarrow> bool" where
  "adapter_supplies s (source, b, sourceIndex, targetType, targetIndex) =
     ((case (source, sourceIndex) of
         (Inventory, None) \<Rightarrow> b \<in> set (inventory_ids s)
       | (Inventory, Some i) \<Rightarrow> False
       | (Slot, Some i) \<Rightarrow> i < gameSize s \<and> js_get (currentSlots s) i = Item b
       | (Slot, None) \<Rightarrow> False)
      \<and> (case (targetType, targetIndex) of
            (Slot, Some j) \<Rightarrow> j < gameSize s
          | (Slot, None) \<Rightarrow> False
          | (Inventory, None) \<Rightarrow> True
          | (Inventory, Some j) \<Rightarrow> False))"

text \<open>A sequence of moves, each supplied from the state it is executed in.\<close>

fun play :: "move list \<Rightarrow> game_state \<Rightarrow> game_state option" where
  "play [] s = Some s"
| "play (m # ms) s = (if adapter_supplies s m then play ms (apply_move m s) else None)"

section \<open>Views\<close>

text \<open>
  The history panel: \<open>history.map((entry, idx) => <HistoryRow entry index=... />)\<close>, as
  the list of the properties passed to each row, in rendering order.
\<close>

definition historyRows :: "HistoryEntry list \<Rightarrow> (HistoryEntry \<times> nat) list" where
  "historyRows h = map (\<lambda>(idx, entry). (entry, length h - 1 - idx)) (zip [0..<length h] h)"

text \<open>
  Arrays are objects: \<open>sort\<close> rearranges the array it is called on. A heap maps
  references to array contents; the spread syntax allocates a new array.
\<close>

record 'a js_heap =
  cells :: "nat \<Rightarrow> 'a list"
  next_ref :: nat

definition spread_copy :: "'a js_heap \<Rightarrow> nat \<Rightarrow> 'a js_heap \<times> nat" where
  "spread_copy h a =
     (h\<lparr>cells := (cells h)(next_ref h := cells h a), next_ref := Suc (next_ref h)\<rparr>, next_ref h)"

definition sort_in_place ::
  "(unit \<Rightarrow> 'a \<Rightarrow> 'a \<Rightarrow> int \<times> unit) \<Rightarrow> 'a js_heap \<Rightarrow> nat \<Rightarrow> 'a js_heap \<times> nat" where
  "sort_in_place cmp h a = (h\<lparr>cells := (cells h)(a := fst (js_sort cmp (cells h a) ()))\<rparr>, a)"

definition compareRecords :: "unit \<Rightarrow> GameRecord \<Rightarrow> GameRecord \<Rightarrow> int \<times> unit" where
  "compareRecords u a b =
     (if difficulty b \<noteq> difficulty a then int (difficulty b) - int (difficulty a)
      else if attempts a \<noteq> attempts b then int (attempts a) - int (attempts b)
      else durationSeconds a - durationSeconds b, u)"

definition sortedRecords :: "GameRecord js_heap \<Rightarrow> nat \<Rightarrow> GameRecord js_heap \<times> nat" where
  "sortedRecords h records_ref =
     (case spread_copy h records_ref of (h', copy) \<Rightarrow> sort_in_place compareRecords h' copy)"

text \<open>The heap in which the array of the \<open>records\<close> state is the only object.\<close>

definition records_heap :: "game_state \<Rightarrow> GameRecord js_heap" where
  "records_heap s = \<lparr>cells = (\<lambda>a. if a = 0 then records s else []), next_ref = 1\<rparr>"

text \<open>
  The order of the records view in the words of the specification: harder difficulty
  first, then fewer attempts, then shorter duration.
\<close>

definition ranks_before :: "GameRecord \<Rightarrow> GameRecord \<Rightarrow> bool" where
  "ranks_before a b =
     (difficulty b < difficulty a
      \<or> (difficulty a = difficulty b
          \<and> (attempts a < attempts b
              \<or> (attempts a = attempts b \<and> durationSeconds a \<le> durationSeconds b))))"

section \<open>Scenarios\<close>

text \<open>
  The game as the mount effect starts it, with every comparator call of the shuffle
  returning a positive number and the clock at 1000.
\<close>

definition fresh_game :: game_state where
  "fresh_game = initGame (\<lambda>k. 1) 1000 DEFAULT_GAME_SIZE initial_state"

text \<open>Cola dragged from the tray to slot 0, then lime to slot 1.\<close>

definition two_placed :: game_state where
  "two_placed =
     apply_move (Inventory, ''lime'', None, Slot, Some 1)
       (apply_move (Inventory, ''cola'', None, Slot, Some 0) fresh_game)"

text \<open>A full board that differs from the target of \<open>fresh_game\<close> in every position.\<close>

definition all_wrong :: game_state where
  "all_wrong =
     fresh_game\<lparr>currentSlots := map Item [''cola'', ''lime'', ''grape'', ''orange'', ''water'']\<rparr>"

definition demo_moves :: "move list" where
  "demo_moves =
     [(Inventory, ''cola'', None, Slot, Some 0),
      (Inventory, ''lime'', None, Slot, Some 0),
      (Slot, ''lime'', Some 0, Slot, Some 2),
      (Inventory, ''cola'', None, Slot, Some 0),
      (Slot, ''cola'', Some 0, Inventory, None)]"

text \<open>The five cans dragged from the tray into the slots in the order of the target.\<close>

definition solved_game :: game_state where
  "solved_game =
     run [DropOnSlot Inventory ''water'' None 0, DropOnSlot Inventory ''grape'' None 1,
          DropOnSlot Inventory ''orange'' None 2, DropOnSlot Inventory ''lime'' None 3,
          DropOnSlot Inventory ''cola'' None 4] fresh_game"

text \<open>
  The solved board is confirmed; before the timeout fires a finger goes down on the can
  of slot 0; the timeout fires and the win dialog is closed while the finger is still
  down.
\<close>

definition won_with_drag :: game_state where
  "won_with_drag =
     run [ConfirmClick 2000 2000, TouchStart Slot ''water'' (Some 0) 10 10,
          TimeoutFires 2500 2500, CloseWinModal] solved_game"

text \<open>One confirmed attempt on the board of \<open>all_wrong\<close>.\<close>

definition one_attempt :: game_state where
  "one_attempt = checkSolution 2000 2001 all_wrong"

definition three_records :: "GameRecord list" where
  "three_records =
     [\<lparr>r_id = 1, r_timestamp = 1, attempts = 4, durationSeconds = 90, difficulty = 5,
       r_targetSequence = [''cola'', ''lime'', ''orange'', ''grape'', ''water'']\<rparr>,
      \<lparr>r_id = 2, r_timestamp = 2, attempts = 9, durationSeconds = 300, difficulty = 6,
       r_targetSequence = [''cola'', ''lime'', ''orange'', ''grape'', ''water'', ''energy'']\<rparr>,
      \<lparr>r_id = 3, r_timestamp = 3, attempts = 4, durationSeconds = 60, difficulty = 5,
       r_targetSequence = [''lime'', ''cola'', ''orange'', ''grape'', ''water'']\<rparr>]"

definition with_records :: game_state where
  "with_records = fresh_game\<lparr>records := three_records\<rparr>"

section \<open>Facts about the array operations\<close>

lemma js_spread_slot_board: "is_slot_board xs \<Longrightarrow> js_spread xs = xs"
  by (auto simp: js_spread_def is_slot_board_def intro!: map_idI)

lemma js_get_slot_board:
  assumes "is_slot_board xs" and "i < length xs"
  shows "js_get xs i = xs ! i"
proof -
  have "xs ! i \<in> set xs"
    using assms(2) by simp
  with assms(1) have "xs ! i \<noteq> Hole"
    by (auto simp: is_slot_board_def)
  with assms(2) show ?thesis
    by (simp add: js_get_def)
qed

lemma js_set_in_range: "i < length xs \<Longrightarrow> js_set xs i v = xs[i := v]"
  by (simp add: js_set_def)

lemma is_slot_board_update:
  "is_slot_board xs \<Longrightarrow> v \<noteq> Undef \<Longrightarrow> v \<noteq> Hole \<Longrightarrow> is_slot_board (xs[i := v])"
  unfolding is_slot_board_def by (metis insertE set_update_subset_insert subsetD)

lemma is_slot_board_nth:
  "is_slot_board xs \<Longrightarrow> j < length xs \<Longrightarrow> xs ! j \<noteq> Undef \<and> xs ! j \<noteq> Hole"
  unfolding is_slot_board_def by (metis nth_mem)

lemma set_placed_items: "set (placed_items xs) = {b. Item b \<in> set xs}"
  by (induction xs rule: placed_items.induct) auto

text \<open>No brand id repeats exactly when no two different slots hold the same id.\<close>

lemma no_item_twice_iff:
  "no_item_twice xs \<longleftrightarrow>
     (\<forall>i j b. i < length xs \<and> j < length xs \<and> xs ! i = Item b \<and> xs ! j = Item b \<longrightarrow> i = j)"
  (is "_ \<longleftrightarrow> ?U xs")
proof (induction xs)
  case Nil
  then show ?case by (simp add: no_item_twice_def)
next
  case (Cons c cs)
  have step: "?U (c # cs) \<longleftrightarrow> (\<forall>b. c = Item b \<longrightarrow> Item b \<notin> set cs) \<and> ?U cs"
  proof (intro iffI conjI allI impI)
    fix b assume u: "?U (c # cs)" and c: "c = Item b"
    show "Item b \<notin> set cs"
    proof
      assume "Item b \<in> set cs"
      then obtain k where "k < length cs" "cs ! k = Item b"
        by (auto simp: in_set_conv_nth)
      with c have "0 < length (c # cs) \<and> Suc k < length (c # cs)
          \<and> (c # cs) ! 0 = Item b \<and> (c # cs) ! Suc k = Item b"
        by simp
      with u have "0 = Suc k" by blast
      then show False by simp
    qed
  next
    fix i j b
    assume u: "?U (c # cs)"
      and h: "i < length cs \<and> j < length cs \<and> cs ! i = Item b \<and> cs ! j = Item b"
    then have "Suc i < length (c # cs) \<and> Suc j < length (c # cs)
        \<and> (c # cs) ! Suc i = Item b \<and> (c # cs) ! Suc j = Item b"
      by simp
    with u have "Suc i = Suc j" by blast
    then show "i = j" by simp
  next
    fix i j b
    assume a: "(\<forall>b. c = Item b \<longrightarrow> Item b \<notin> set cs) \<and> ?U cs"
      and h: "i < length (c # cs) \<and> j < length (c # cs)
        \<and> (c # cs) ! i = Item b \<and> (c # cs) ! j = Item b"
    show "i = j"
    proof (cases i)
      case 0
      with h have c: "c = Item b" by simp
      show ?thesis
      proof (cases j)
        case 0
        with \<open>i = 0\<close> show ?thesis by simp
      next
        case (Suc l)
        with h have "cs ! l = Item b" "l < length cs" by simp_all
        then have "Item b \<in> set cs" by (metis nth_mem)
        with a c show ?thesis by blast
      qed
    next
      case (Suc k)
      with h have k: "cs ! k = Item b" "k < length cs" by simp_all
      show ?thesis
      proof (cases j)
        case 0
        with h have c: "c = Item b" by simp
        from k have "Item b \<in> set cs" by (metis nth_mem)
        with a c show ?thesis by blast
      next
        case (Suc l)
        with h have "cs ! l = Item b" "l < length cs" by simp_all
        with a k have "k = l" by blast
        with \<open>i = Suc k\<close> \<open>j = Suc l\<close> show ?thesis by simp
      qed
    qed
  qed
  have "no_item_twice (c # cs) \<longleftrightarrow> (\<forall>b. c = Item b \<longrightarrow> Item b \<notin> set cs) \<and> no_item_twice cs"
    by (cases c) (auto simp: no_item_twice_def set_placed_items)
  with Cons.IH step show ?case by simp
qed

lemma no_item_twice_place:
  assumes "no_item_twice xs" "Item b \<notin> set xs"
  shows "no_item_twice (xs[j := Item b])"
  unfolding no_item_twice_iff
proof (intro allI impI)
  fix k l c
  assume h: "k < length (xs[j := Item b]) \<and> l < length (xs[j := Item b])
     \<and> xs[j := Item b] ! k = Item c \<and> xs[j := Item b] ! l = Item c"
  then have kl: "k < length xs" "l < length xs" by simp_all
  have other: "xs ! n \<noteq> Item b" if "n < length xs" for n
    using assms(2) that nth_mem by metis
  show "k = l"
  proof (cases "k = j \<or> l = j")
    case True
    then show ?thesis
      using h kl other [of k] other [of l] by (auto simp: nth_list_update split: if_splits)
  next
    case False
    with h kl have "xs ! k = Item c" "xs ! l = Item c" by simp_all
    with assms(1) kl show ?thesis
      unfolding no_item_twice_iff by blast
  qed
qed

lemma no_item_twice_clear:
  assumes "no_item_twice xs"
  shows "no_item_twice (xs[i := Null])"
  unfolding no_item_twice_iff
proof (intro allI impI)
  fix k l c
  assume h: "k < length (xs[i := Null]) \<and> l < length (xs[i := Null])
     \<and> xs[i := Null] ! k = Item c \<and> xs[i := Null] ! l = Item c"
  then have kl: "k < length xs" "l < length xs" by simp_all
  with h have "k \<noteq> i" "l \<noteq> i" by auto
  with h kl have "xs ! k = Item c" "xs ! l = Item c" by simp_all
  with assms kl show "k = l"
    unfolding no_item_twice_iff by blast
qed

lemma no_item_twice_swap:
  assumes "no_item_twice xs" "xs ! i = Item b" "i < length xs" "j < length xs"
  shows "no_item_twice (xs[j := Item b, i := xs ! j])"
  unfolding no_item_twice_iff
proof (intro allI impI)
  fix k l c
  assume h: "k < length (xs[j := Item b, i := xs ! j]) \<and> l < length (xs[j := Item b, i := xs ! j])
     \<and> xs[j := Item b, i := xs ! j] ! k = Item c \<and> xs[j := Item b, i := xs ! j] ! l = Item c"
  let ?p = "\<lambda>k. if k = i then j else if k = j then i else k"
  have v: "xs[j := Item b, i := xs ! j] ! k = xs ! ?p k" if "k < length xs" for k
    using that assms(2,3,4) by (auto simp: nth_list_update)
  from h have kl: "k < length xs" "l < length xs" by simp_all
  have pk: "xs ! ?p k = Item c"
    using h v [OF kl(1)] by simp
  have pl: "xs ! ?p l = Item c"
    using h v [OF kl(2)] by simp
  have "?p k < length xs" "?p l < length xs"
    using kl assms(3,4) by auto
  with assms(1) pk pl have "?p k = ?p l"
    unfolding no_item_twice_iff by blast
  then show "k = l"
    by (auto split: if_splits)
qed

section \<open>The scorer\<close>

lemma count_loop_zip:
  "count_loop (map Item bs) k T n =
     n + length (filter (\<lambda>(b, t). b = t) (zip bs (drop k T)))"
proof (induction bs arbitrary: k n)
  case Nil
  then show ?case by simp
next
  case (Cons b bs)
  show ?case
  proof (cases "k < length T")
    case True
    then have d: "drop k T = T ! k # drop (Suc k) T"
      by (simp add: Cons_nth_drop_Suc)
    from True show ?thesis
      by (simp add: Cons.IH d target_at_def)
  next
    case False
    then show ?thesis
      by (simp add: Cons.IH target_at_def)
  qed
qed

lemma score_filled:
  assumes "length bs = length T"
  shows "score (map Item bs) T = card {i. i < length bs \<and> bs ! i = T ! i}"
proof -
  have "score (map Item bs) T = length (filter (\<lambda>(b, t). b = t) (zip bs T))"
    by (simp add: score_def count_loop_zip)
  also have "\<dots> = card {i. i < length (zip bs T) \<and> (\<lambda>(b, t). b = t) (zip bs T ! i)}"
    by (rule length_filter_conv_card)
  also have "{i. i < length (zip bs T) \<and> (\<lambda>(b, t). b = t) (zip bs T ! i)}
             = {i. i < length bs \<and> bs ! i = T ! i}"
    using assms by auto
  finally show ?thesis .
qed

lemma score_self: "score (map Item T) T = length T"
  using score_filled [of T T] by simp

lemma score_all_differ:
  assumes "list_all2 (\<lambda>b t. b \<noteq> t) bs T"
  shows "score (map Item bs) T = 0"
proof -
  from assms have l: "length bs = length T"
    by (rule list_all2_lengthD)
  from assms have "{i. i < length bs \<and> bs ! i = T ! i} = {}"
    by (auto simp: list_all2_conv_all_nth)
  with score_filled [OF l] show ?thesis by simp
qed

lemma checkSolution_history:
  "\<not> some_null (currentSlots s) \<Longrightarrow>
   history (checkSolution t_id t_stamp s)
     = \<lparr>h_id = t_id, arrangement = js_spread (currentSlots s),
        correctCount = score (currentSlots s) (targetSequence s), h_timestamp = t_stamp\<rparr>
       # history s"
  by (simp add: checkSolution_def Let_def playSound_def)

section \<open>Scenario facts\<close>

lemma fresh_game_board: "currentSlots fresh_game = [Null, Null, Null, Null, Null]"
  by (simp add: fresh_game_def initGame_def DEFAULT_GAME_SIZE_def BRANDS_def playSound_def)

lemma fresh_game_target:
  "targetSequence fresh_game = [''water'', ''grape'', ''orange'', ''lime'', ''cola'']"
  by (simp add: fresh_game_def initGame_def shuffled_def DEFAULT_GAME_SIZE_def BRANDS_def
      random_cmp_def mk_brand_def playSound_def)

lemma fresh_game_size: "gameSize fresh_game = 5"
  by (simp add: fresh_game_def initGame_def initial_state_def DEFAULT_GAME_SIZE_def playSound_def)

text \<open>
  C1. At confirm time, on a board filled with the brand ids \<open>bs\<close> and as long as the
  target, the match count stored in the new history entry is the number of positions
  where board and target agree. The target scored against itself gives its length, and
  a board that differs from the target in every position gives 0.
\<close>

theorem checkSolution_scores_matching_positions:
  assumes "currentSlots s = map Item bs" and "length bs = length (targetSequence s)"
  shows "history (checkSolution t_id t_stamp s) \<noteq> []
    \<and> correctCount (hd (history (checkSolution t_id t_stamp s)))
        = card {i. i < length bs \<and> bs ! i = targetSequence s ! i}
    \<and> score (map Item (targetSequence s)) (targetSequence s) = length (targetSequence s)
    \<and> (list_all2 (\<lambda>b t. b \<noteq> t) bs (targetSequence s) \<longrightarrow>
         correctCount (hd (history (checkSolution t_id t_stamp s))) = 0)"
proof -
  have nn: "\<not> some_null (currentSlots s)"
    using assms(1) by (auto simp: some_null_def)
  have c: "correctCount (hd (history (checkSolution t_id t_stamp s)))
        = score (map Item bs) (targetSequence s)"
    by (simp add: checkSolution_history [OF nn] assms(1))
  show ?thesis
    using c nn score_filled [OF assms(2)] score_self [of "targetSequence s"]
      score_all_differ [of bs "targetSequence s"]
    by (simp add: checkSolution_history)
qed

theorem checkSolution_scores_matching_positions_witness:
  "currentSlots all_wrong = map Item [''cola'', ''lime'', ''grape'', ''orange'', ''water'']
   \<and> length [''cola'', ''lime'', ''grape'', ''orange'', ''water''] = length (targetSequence all_wrong)
   \<and> list_all2 (\<lambda>b t. b \<noteq> t) [''cola'', ''lime'', ''grape'', ''orange'', ''water'']
        (targetSequence all_wrong)
   \<and> correctCount (hd (history (checkSolution 2000 2000 all_wrong))) = 0
   \<and> score (map Item (targetSequence all_wrong)) (targetSequence all_wrong) = 5"
proof -
  have b: "currentSlots all_wrong = map Item [''cola'', ''lime'', ''grape'', ''orange'', ''water'']"
    by (simp add: all_wrong_def)
  have t: "targetSequence all_wrong = [''water'', ''grape'', ''orange'', ''lime'', ''cola'']"
    by (simp add: all_wrong_def fresh_game_target)
  have l: "length [''cola'', ''lime'', ''grape'', ''orange'', ''water''] = length (targetSequence all_wrong)"
    by (simp add: t)
  have d: "list_all2 (\<lambda>b t. b \<noteq> t) [''cola'', ''lime'', ''grape'', ''orange'', ''water'']
        (targetSequence all_wrong)"
    by (simp add: t)
  note claim = checkSolution_scores_matching_positions [OF b l, of 2000 2000]
  from claim d have z: "correctCount (hd (history (checkSolution 2000 2000 all_wrong))) = 0"
    by blast
  from claim have "score (map Item (targetSequence all_wrong)) (targetSequence all_wrong)
      = length (targetSequence all_wrong)"
    by blast
  then have f: "score (map Item (targetSequence all_wrong)) (targetSequence all_wrong) = 5"
    by (simp add: t)
  from b l d z f show ?thesis
    by blast
qed

section \<open>The move executor\<close>

lemma executeMove_inventory_to_slot:
  "is_slot_board (currentSlots s) \<Longrightarrow> j < length (currentSlots s) \<Longrightarrow>
   currentSlots (executeMove Inventory b si Slot (Some j) s) = (currentSlots s)[j := Item b]"
  by (simp add: executeMove_def Let_def playSound_def js_spread_slot_board js_set_in_range)

lemma executeMove_slot_to_slot:
  "is_slot_board (currentSlots s) \<Longrightarrow> i < length (currentSlots s) \<Longrightarrow>
   j < length (currentSlots s) \<Longrightarrow>
   currentSlots (executeMove Slot b (Some i) Slot (Some j) s)
     = (currentSlots s)[j := Item b, i := currentSlots s ! j]"
  by (simp add: executeMove_def Let_def playSound_def js_spread_slot_board js_set_in_range
      js_get_slot_board)

lemma executeMove_slot_to_inventory:
  "is_slot_board (currentSlots s) \<Longrightarrow> i < length (currentSlots s) \<Longrightarrow>
   currentSlots (executeMove Slot b (Some i) Inventory ti s) = (currentSlots s)[i := Null]"
  by (simp add: executeMove_def Let_def playSound_def js_spread_slot_board js_set_in_range)

lemma executeMove_inventory_to_inventory:
  "is_slot_board (currentSlots s) \<Longrightarrow>
   currentSlots (executeMove Inventory b si Inventory ti s) = currentSlots s"
  by (simp add: executeMove_def Let_def js_spread_slot_board)

lemma executeMove_frame:
  "executeMove src b si tgt ti s
     = s\<lparr>currentSlots := currentSlots (executeMove src b si tgt ti s),
         sounds := sounds (executeMove src b si tgt ti s)\<rparr>"
  by (cases src; cases tgt; cases si; cases ti)
     (simp_all add: executeMove_def Let_def playSound_def)

lemma executeMove_gameSize: "gameSize (executeMove src b si tgt ti s) = gameSize s"
  by (subst executeMove_frame) simp

lemma set_inventory_ids:
  "set (inventory_ids s) = set (active_ids s) - {b. Item b \<in> set (currentSlots s)}"
  by (auto simp: inventory_ids_def active_ids_def availableInventory_def js_includes_def)

lemma set_availableInventory:
  "set (availableInventory s)
     = set (activeBrands s) - {brand. Item (brand_id brand) \<in> set (currentSlots s)}"
  by (auto simp: availableInventory_def js_includes_def)

lemma active_ids_executeMove: "active_ids (executeMove src b si tgt ti s) = active_ids s"
  by (simp add: active_ids_def activeBrands_def executeMove_gameSize)

text \<open>
  Overwriting slot \<open>j\<close> with an inventory item: the item leaves the inventory, and a
  displaced brand that stood in no other slot enters it.
\<close>

lemma place_updates_inventory:
  assumes board: "is_slot_board (currentSlots s)" and j: "j < length (currentSlots s)"
    and b: "b \<in> set (inventory_ids s)"
  shows "b \<notin> set (inventory_ids (executeMove Inventory b si Slot (Some j) s))"
    and "currentSlots s ! j = Item y \<Longrightarrow> y \<in> set (active_ids s) \<Longrightarrow>
         no_item_twice (currentSlots s) \<Longrightarrow>
         y \<in> set (inventory_ids (executeMove Inventory b si Slot (Some j) s))"
proof -
  let ?s' = "executeMove Inventory b si Slot (Some j) s"
  have p: "currentSlots ?s' = (currentSlots s)[j := Item b]"
    by (rule executeMove_inventory_to_slot [OF board j])
  show "b \<notin> set (inventory_ids ?s')"
    using j by (simp add: set_inventory_ids p set_update_memI)
  assume y: "currentSlots s ! j = Item y" "y \<in> set (active_ids s)"
    and nd: "no_item_twice (currentSlots s)"
  from b have "Item b \<notin> set (currentSlots s)"
    by (simp add: set_inventory_ids)
  with y(1) j have "y \<noteq> b"
    using nth_mem [of j "currentSlots s"] by auto
  have "Item y \<notin> set ((currentSlots s)[j := Item b])"
  proof
    assume "Item y \<in> set ((currentSlots s)[j := Item b])"
    then obtain k where k: "k < length (currentSlots s)" "(currentSlots s)[j := Item b] ! k = Item y"
      by (auto simp: in_set_conv_nth)
    with \<open>y \<noteq> b\<close> have "k \<noteq> j" using j by auto
    with k have "currentSlots s ! k = Item y" by simp
    with nd y(1) j k(1) have "k = j"
      unfolding no_item_twice_iff by blast
    with \<open>k \<noteq> j\<close> show False by simp
  qed
  then show "y \<in> set (inventory_ids ?s')"
    using y(2) by (simp add: set_inventory_ids p active_ids_executeMove)
qed

text \<open>
  C2, as the code has it. The case table of the move executor, for a board of \<open>null\<close>s
  and brand ids and slot indices \<open>i\<close>, \<open>j\<close> on the board. From the inventory to slot \<open>j\<close>: slot \<open>j\<close> is
  overwritten with the item; when the item came from the derived inventory of a board
  without repeats, the new board has no repeats, the item has left the inventory and a
  displaced occupant \<open>y\<close> is back in it. From slot \<open>i\<close>, holding the item \<open>c\<close> the
  descriptor names, to slot \<open>j\<close>: the two contents are exchanged, so \<open>j\<close> holds the item
  and \<open>i\<close> holds what \<open>j\<close> held (\<open>null\<close> when \<open>j\<close> was empty). From slot \<open>i\<close> to the
  inventory: slot \<open>i\<close> is cleared. From the inventory to the inventory: the board is
  unchanged.
\<close>

theorem executeMove_case_table:
  assumes "is_slot_board (currentSlots s)"
    and "i < length (currentSlots s)" and "j < length (currentSlots s)"
  shows "currentSlots (executeMove Inventory b si Slot (Some j) s) = (currentSlots s)[j := Item b]
    \<and> (b \<in> set (inventory_ids s) \<and> no_item_twice (currentSlots s)
         \<and> currentSlots s ! j = Item y \<and> y \<in> set (active_ids s) \<longrightarrow>
         no_item_twice (currentSlots (executeMove Inventory b si Slot (Some j) s))
         \<and> b \<notin> set (inventory_ids (executeMove Inventory b si Slot (Some j) s))
         \<and> y \<in> set (inventory_ids (executeMove Inventory b si Slot (Some j) s)))
    \<and> (currentSlots s ! i = Item c \<longrightarrow>
         currentSlots (executeMove Slot c (Some i) Slot (Some j) s)
           = (currentSlots s)[j := currentSlots s ! i, i := currentSlots s ! j]
         \<and> currentSlots (executeMove Slot c (Some i) Slot (Some j) s) ! j = Item c
         \<and> currentSlots (executeMove Slot c (Some i) Slot (Some j) s) ! i = currentSlots s ! j)
    \<and> currentSlots (executeMove Slot c (Some i) Inventory ti s) = (currentSlots s)[i := Null]
    \<and> currentSlots (executeMove Inventory b si Inventory ti s) = currentSlots s"
proof -
  note board = assms(1) and i = assms(2) and j = assms(3)
  let ?placed = "executeMove Inventory b si Slot (Some j) s"
  have p: "currentSlots ?placed = (currentSlots s)[j := Item b]"
    by (rule executeMove_inventory_to_slot [OF board j])
  have inv: "no_item_twice (currentSlots ?placed) \<and> b \<notin> set (inventory_ids ?placed)
      \<and> y \<in> set (inventory_ids ?placed)"
    if "b \<in> set (inventory_ids s)" "no_item_twice (currentSlots s)"
      "currentSlots s ! j = Item y" "y \<in> set (active_ids s)"
  proof -
    from that(1) have "Item b \<notin> set (currentSlots s)"
      by (simp add: set_inventory_ids)
    with that(2) have "no_item_twice (currentSlots ?placed)"
      by (simp add: p no_item_twice_place)
    with place_updates_inventory [OF board j that(1)] that show ?thesis
      by blast
  qed
  have sw: "currentSlots (executeMove Slot c (Some i) Slot (Some j) s)
           = (currentSlots s)[j := currentSlots s ! i, i := currentSlots s ! j]
         \<and> currentSlots (executeMove Slot c (Some i) Slot (Some j) s) ! j = Item c
         \<and> currentSlots (executeMove Slot c (Some i) Slot (Some j) s) ! i = currentSlots s ! j"
    if "currentSlots s ! i = Item c"
    using that i j by (auto simp: executeMove_slot_to_slot [OF board i j] nth_list_update)
  show ?thesis
    using p inv sw executeMove_slot_to_inventory [OF board i]
      executeMove_inventory_to_inventory [OF board]
    by blast
qed

lemma two_placed_board:
  "currentSlots two_placed = [Item ''cola'', Item ''lime'', Null, Null, Null]"
  by (simp add: two_placed_def executeMove_def Let_def playSound_def fresh_game_board
      js_spread_def js_set_def)

lemma two_placed_size: "gameSize two_placed = 5"
  by (simp add: two_placed_def executeMove_gameSize fresh_game_size)

lemma active_ids_5:
  "gameSize s = 5 \<Longrightarrow> active_ids s = [''cola'', ''lime'', ''orange'', ''grape'', ''water'']"
  by (simp add: active_ids_def activeBrands_def BRANDS_def mk_brand_def)

lemma two_placed_inventory: "inventory_ids two_placed = [''orange'', ''grape'', ''water'']"
  by (simp add: inventory_ids_def availableInventory_def activeBrands_def two_placed_size
      two_placed_board BRANDS_def mk_brand_def js_includes_def)

theorem executeMove_case_table_witness:
  "is_slot_board (currentSlots two_placed)
   \<and> (0::nat) < length (currentSlots two_placed) \<and> (1::nat) < length (currentSlots two_placed)
   \<and> ''orange'' \<in> set (inventory_ids two_placed) \<and> no_item_twice (currentSlots two_placed)
   \<and> currentSlots two_placed ! 1 = Item ''lime'' \<and> ''lime'' \<in> set (active_ids two_placed)
   \<and> currentSlots two_placed ! 0 = Item ''cola''
   \<and> currentSlots (executeMove Inventory ''orange'' None Slot (Some 1) two_placed)
       = [Item ''cola'', Item ''orange'', Null, Null, Null]
   \<and> ''lime'' \<in> set (inventory_ids (executeMove Inventory ''orange'' None Slot (Some 1) two_placed))
   \<and> ''orange'' \<notin> set (inventory_ids (executeMove Inventory ''orange'' None Slot (Some 1) two_placed))
   \<and> currentSlots (executeMove Slot ''cola'' (Some 0) Slot (Some 1) two_placed)
       = [Item ''lime'', Item ''cola'', Null, Null, Null]
   \<and> currentSlots (executeMove Slot ''cola'' (Some 0) Inventory None two_placed)
       = [Null, Item ''lime'', Null, Null, Null]
   \<and> currentSlots (executeMove Inventory ''orange'' None Inventory None two_placed)
       = [Item ''cola'', Item ''lime'', Null, Null, Null]"
proof -
  have h1: "is_slot_board (currentSlots two_placed)"
    by (simp add: two_placed_board is_slot_board_def)
  have h2: "(0::nat) < length (currentSlots two_placed)"
    and h3: "(1::nat) < length (currentSlots two_placed)"
    by (simp_all add: two_placed_board)
  have a1: "''orange'' \<in> set (inventory_ids two_placed)"
    by (simp add: two_placed_inventory)
  have a2: "no_item_twice (currentSlots two_placed)"
    by (simp add: two_placed_board no_item_twice_def)
  have a3: "currentSlots two_placed ! 1 = Item ''lime''"
    and a5: "currentSlots two_placed ! 0 = Item ''cola''"
    by (simp_all add: two_placed_board)
  have a4: "''lime'' \<in> set (active_ids two_placed)"
    by (simp add: active_ids_5 [OF two_placed_size])
  note claim = executeMove_case_table [OF h1 h2 h3, of "''orange''" None "''lime''" "''cola''" None]
  from claim have r1: "currentSlots (executeMove Inventory ''orange'' None Slot (Some 1) two_placed)
       = [Item ''cola'', Item ''orange'', Null, Null, Null]"
    by (simp add: two_placed_board)
  from claim a1 a2 a3 a4
  have r2: "''lime'' \<in> set (inventory_ids (executeMove Inventory ''orange'' None Slot (Some 1) two_placed))"
    and r3: "''orange'' \<notin> set (inventory_ids (executeMove Inventory ''orange'' None Slot (Some 1) two_placed))"
    by blast+
  from claim a5 have r4: "currentSlots (executeMove Slot ''cola'' (Some 0) Slot (Some 1) two_placed)
       = [Item ''lime'', Item ''cola'', Null, Null, Null]"
    by (simp add: two_placed_board)
  from claim have r5: "currentSlots (executeMove Slot ''cola'' (Some 0) Inventory None two_placed)
       = [Null, Item ''lime'', Null, Null, Null]"
    and r6: "currentSlots (executeMove Inventory ''orange'' None Inventory None two_placed)
       = [Item ''cola'', Item ''lime'', Null, Null, Null]"
    by (simp_all add: two_placed_board)
  from h1 h2 h3 a1 a2 a3 a4 a5 r1 r2 r3 r4 r5 r6 show ?thesis
    by blast
qed

text \<open>
  C2, as stated. On the board \<open>[cola, lime, null, null, null]\<close>, a descriptor from slot 0
  to slot 1 that names orange, which slot 0 does not hold, leaves \<open>[lime, orange, null,
  null, null]\<close>, which is not the board with slots 0 and 1 exchanged; and a descriptor
  from the inventory to slot 1 that names cola, which stands in slot 0, leaves cola in
  two slots.
\<close>

theorem executeMove_stale_descriptor_counterexample:
  "currentSlots two_placed = [Item ''cola'', Item ''lime'', Null, Null, Null]
   \<and> currentSlots (executeMove Slot ''orange'' (Some 0) Slot (Some 1) two_placed)
       = [Item ''lime'', Item ''orange'', Null, Null, Null]
   \<and> currentSlots (executeMove Slot ''orange'' (Some 0) Slot (Some 1) two_placed)
       \<noteq> (currentSlots two_placed)[1 := currentSlots two_placed ! 0,
                                      0 := currentSlots two_placed ! 1]
   \<and> currentSlots (executeMove Inventory ''cola'' None Slot (Some 1) two_placed)
       = [Item ''cola'', Item ''cola'', Null, Null, Null]
   \<and> \<not> no_item_twice (currentSlots (executeMove Inventory ''cola'' None Slot (Some 1) two_placed))"
  by (simp add: executeMove_def Let_def playSound_def two_placed_board js_spread_def
      js_set_def js_get_def no_item_twice_def)

text \<open>
  C10. Whatever its arguments, \<open>executeMove\<close> leaves the target sequence, the history
  log, the game status, the records list, the game size and the max-unlocked level as
  they were: the state it returns differs from the one it was given in the board and
  the log of emitted sounds only.
\<close>

theorem executeMove_changes_only_the_board:
  "targetSequence (executeMove src b si tgt ti s) = targetSequence s
   \<and> history (executeMove src b si tgt ti s) = history s
   \<and> gameStatus (executeMove src b si tgt ti s) = gameStatus s
   \<and> records (executeMove src b si tgt ti s) = records s
   \<and> gameSize (executeMove src b si tgt ti s) = gameSize s
   \<and> maxUnlockedLevel (executeMove src b si tgt ti s) = maxUnlockedLevel s
   \<and> executeMove src b si tgt ti s
       = s\<lparr>currentSlots := currentSlots (executeMove src b si tgt ti s),
           sounds := sounds (executeMove src b si tgt ti s)\<rparr>"
  by (cases src; cases tgt; cases si; cases ti)
     (simp_all add: executeMove_def Let_def playSound_def)

theorem executeMove_changes_only_the_board_witness:
  "targetSequence (executeMove Slot ''cola'' (Some 0) Slot (Some 1) two_placed)
     = targetSequence two_placed
   \<and> history (executeMove Slot ''cola'' (Some 0) Slot (Some 1) two_placed) = history two_placed
   \<and> gameStatus (executeMove Slot ''cola'' (Some 0) Slot (Some 1) two_placed)
     = gameStatus two_placed
   \<and> records (executeMove Slot ''cola'' (Some 0) Slot (Some 1) two_placed) = records two_placed
   \<and> gameSize (executeMove Slot ''cola'' (Some 0) Slot (Some 1) two_placed) = gameSize two_placed
   \<and> maxUnlockedLevel (executeMove Slot ''cola'' (Some 0) Slot (Some 1) two_placed)
     = maxUnlockedLevel two_placed
   \<and> currentSlots (executeMove Slot ''cola'' (Some 0) Slot (Some 1) two_placed)
     \<noteq> currentSlots two_placed"
proof -
  have "currentSlots (executeMove Slot ''cola'' (Some 0) Slot (Some 1) two_placed)
     \<noteq> currentSlots two_placed"
    by (simp add: executeMove_def Let_def playSound_def two_placed_board js_spread_def
        js_set_def js_get_def)
  with executeMove_changes_only_the_board
         [of Slot "''cola''" "Some 0" Slot "Some 1" two_placed]
  show ?thesis by blast
qed

text \<open>
  C8. When some slot of the board is \<open>null\<close>, a confirm returns the state it was given:
  no history entry, no change of status, records or max-unlocked level, no pending
  timeout and no sound.
\<close>

theorem checkSolution_incomplete_board:
  assumes "Null \<in> set (currentSlots s)"
  shows "checkSolution t_id t_stamp s = s
    \<and> history (checkSolution t_id t_stamp s) = history s
    \<and> gameStatus (checkSolution t_id t_stamp s) = gameStatus s
    \<and> records (checkSolution t_id t_stamp s) = records s
    \<and> maxUnlockedLevel (checkSolution t_id t_stamp s) = maxUnlockedLevel s
    \<and> timeouts (checkSolution t_id t_stamp s) = timeouts s
    \<and> sounds (checkSolution t_id t_stamp s) = sounds s"
  using assms by (simp add: checkSolution_def some_null_def)

theorem checkSolution_incomplete_board_witness:
  "Null \<in> set (currentSlots two_placed)
   \<and> checkSolution 2000 2000 two_placed = two_placed
   \<and> history (checkSolution 2000 2000 two_placed) = history two_placed"
proof -
  have h: "Null \<in> set (currentSlots two_placed)"
    by (simp add: two_placed_board)
  from checkSolution_incomplete_board [OF h, of 2000 2000] h show ?thesis
    by blast
qed

section \<open>The board invariant\<close>

lemma board_inv_move:
  assumes "board_inv s" "adapter_supplies s m"
  shows "board_inv (apply_move m s)"
proof -
  obtain src b si tgt ti where m: "m = (src, b, si, tgt, ti)"
    by (cases m) auto
  have board: "is_slot_board (currentSlots s)" and len: "length (currentSlots s) = gameSize s"
    and nd: "no_item_twice (currentSlots s)"
    using assms(1) by (auto simp: board_inv_def)
  show ?thesis
  proof (cases src)
    case Inventory
    with assms(2) m have si: "si = None" and b: "b \<in> set (inventory_ids s)"
      by (auto split: option.splits)
    from b have fresh: "Item b \<notin> set (currentSlots s)"
      by (simp add: set_inventory_ids)
    show ?thesis
    proof (cases tgt)
      case Inventory
      with \<open>src = Inventory\<close> m board len nd show ?thesis
        by (simp add: board_inv_def executeMove_inventory_to_inventory executeMove_gameSize)
    next
      case Slot
      with assms(2) m obtain j where j: "ti = Some j" "j < gameSize s"
        by (auto split: option.splits zone.splits)
      with \<open>src = Inventory\<close> Slot m board len nd fresh show ?thesis
        by (simp add: board_inv_def executeMove_inventory_to_slot executeMove_gameSize
            is_slot_board_update no_item_twice_place)
    qed
  next
    case Slot
    with assms(2) m obtain i where i: "si = Some i" "i < gameSize s"
      "js_get (currentSlots s) i = Item b"
      by (auto split: option.splits)
    then have at_i: "currentSlots s ! i = Item b"
      using board len by (simp add: js_get_slot_board)
    show ?thesis
    proof (cases tgt)
      case Inventory
      with \<open>src = Slot\<close> m i board len nd show ?thesis
        by (simp add: board_inv_def executeMove_slot_to_inventory executeMove_gameSize
            is_slot_board_update no_item_twice_clear)
    next
      case tgt_slot: Slot
      with assms(2) m obtain j where j: "ti = Some j" "j < gameSize s"
        by (auto split: option.splits zone.splits)
      have "is_slot_board ((currentSlots s)[j := Item b, i := currentSlots s ! j])"
        using board j len is_slot_board_nth [of "currentSlots s" j]
        by (simp add: is_slot_board_update)
      moreover have "no_item_twice ((currentSlots s)[j := Item b, i := currentSlots s ! j])"
        using nd at_i i j len by (simp add: no_item_twice_swap)
      ultimately show ?thesis
        using \<open>src = Slot\<close> tgt_slot m i j board len
        by (simp add: board_inv_def executeMove_slot_to_slot executeMove_gameSize)
    qed
  qed
qed

lemma board_inv_play: "board_inv s \<Longrightarrow> play ms s = Some s' \<Longrightarrow> board_inv s'"
proof (induction ms arbitrary: s)
  case Nil
  then show ?case by simp
next
  case (Cons m ms)
  then show ?case
    by (auto split: if_splits intro: board_inv_move)
qed

lemma placed_items_replicate_Null: "placed_items (replicate n Null) = []"
  by (induction n) simp_all

lemma board_inv_empty:
  "currentSlots s = replicate (gameSize s) Null \<Longrightarrow> board_inv s"
  by (simp add: board_inv_def is_slot_board_def no_item_twice_def placed_items_replicate_Null)

text \<open>
  C3. Starting from the all-empty board and executing any sequence of moves, each one a
  move the page can supply in the state it is executed in, no brand id stands in two
  slots, and the derived inventory is the set of active brands minus the brands whose id
  is on the board.
\<close>

theorem moves_keep_board_invariant:
  assumes "currentSlots s0 = replicate (gameSize s0) Null" and "play ms s0 = Some s"
  shows "no_item_twice (currentSlots s)
    \<and> set (availableInventory s)
        = set (activeBrands s) - {brand. Item (brand_id brand) \<in> set (currentSlots s)}"
proof -
  have "board_inv s"
    using board_inv_play [OF board_inv_empty [OF assms(1)] assms(2)] .
  then show ?thesis
    by (simp add: board_inv_def set_availableInventory)
qed

lemma play_demo_moves:
  "play demo_moves fresh_game \<noteq> None
   \<and> currentSlots (the (play demo_moves fresh_game)) = [Null, Null, Item ''lime'', Null, Null]
   \<and> inventory_ids (the (play demo_moves fresh_game)) = [''cola'', ''orange'', ''grape'', ''water'']"
  by (simp add: demo_moves_def fresh_game_def initGame_def shuffled_def
      DEFAULT_GAME_SIZE_def BRANDS_def random_cmp_def mk_brand_def initial_state_def
      playSound_def inventory_ids_def availableInventory_def activeBrands_def js_includes_def
      executeMove_def js_spread_def js_set_def js_get_def)

theorem moves_keep_board_invariant_witness:
  "currentSlots fresh_game = replicate (gameSize fresh_game) Null
   \<and> play demo_moves fresh_game = Some (the (play demo_moves fresh_game))
   \<and> currentSlots (the (play demo_moves fresh_game)) = [Null, Null, Item ''lime'', Null, Null]
   \<and> inventory_ids (the (play demo_moves fresh_game)) = [''cola'', ''orange'', ''grape'', ''water'']
   \<and> no_item_twice (currentSlots (the (play demo_moves fresh_game)))
   \<and> set (availableInventory (the (play demo_moves fresh_game)))
       = set (activeBrands (the (play demo_moves fresh_game)))
         - {brand. Item (brand_id brand) \<in> set (currentSlots (the (play demo_moves fresh_game)))}"
proof -
  have h1: "currentSlots fresh_game = replicate (gameSize fresh_game) Null"
    by (simp add: fresh_game_board fresh_game_size numeral_eq_Suc)
  have h2: "play demo_moves fresh_game = Some (the (play demo_moves fresh_game))"
    using play_demo_moves by simp
  from moves_keep_board_invariant [OF h1 h2] h1 h2 play_demo_moves show ?thesis
    by blast
qed

section \<open>The sequence generator\<close>

lemma mset_js_insert: "js_insert cmp x ys s = (zs, s') \<Longrightarrow> mset zs = add_mset x (mset ys)"
  by (induction ys arbitrary: s zs s') (auto split: prod.splits if_splits)

lemma mset_js_sort: "mset (fst (js_sort cmp xs s)) = mset xs"
proof (induction xs arbitrary: s)
  case Nil
  then show ?case by simp
next
  case (Cons x xs)
  obtain ys s' where r: "js_sort cmp xs s = (ys, s')"
    by (cases "js_sort cmp xs s")
  with Cons.IH [of s] have "mset ys = mset xs" by simp
  moreover obtain zs s'' where i: "js_insert cmp x ys s' = (zs, s'')"
    by (cases "js_insert cmp x ys s'")
  ultimately show ?case
    using r mset_js_insert [OF i] by simp
qed

lemma distinct_brand_ids: "distinct (map brand_id BRANDS)"
  by (simp add: BRANDS_def mk_brand_def)

lemma mset_shuffled: "mset (shuffled r n) = mset (take (min n (length BRANDS)) BRANDS)"
  by (simp add: shuffled_def Let_def mset_js_sort)

text \<open>
  C4. For every size \<open>n\<close>, every sequence of random draws and every previous state, the
  target sequence set by \<open>initGame\<close> has length \<open>min n |BRANDS|\<close>, holds exactly the
  ids of the first \<open>min n |BRANDS|\<close> catalog entries, and holds none of them twice.
\<close>

theorem initGame_target_is_permutation:
  "length (targetSequence (initGame r now n s)) = min n (length BRANDS)
   \<and> mset (targetSequence (initGame r now n s))
       = mset (map brand_id (take (min n (length BRANDS)) BRANDS))
   \<and> distinct (targetSequence (initGame r now n s))"
proof -
  have t: "targetSequence (initGame r now n s) = map brand_id (shuffled r n)"
    by (simp add: initGame_def Let_def playSound_def)
  have m: "mset (map brand_id (shuffled r n))
         = mset (map brand_id (take (min n (length BRANDS)) BRANDS))"
    using mset_shuffled [of r n] by (metis mset_map)
  have d: "distinct (map brand_id (take (min n (length BRANDS)) BRANDS))"
    using distinct_brand_ids by (simp add: take_map [symmetric])
  have l: "length (map brand_id (shuffled r n)) = min n (length BRANDS)"
    using m by (metis length_map length_take mset_eq_length min.commute min.idem min.assoc)
  from m d have "distinct (map brand_id (shuffled r n))"
    by (metis mset_eq_imp_distinct_iff)
  with t m l show ?thesis by simp
qed

theorem initGame_target_is_permutation_witness:
  "targetSequence (initGame (\<lambda>k. 1) 1000 5 initial_state)
     = [''water'', ''grape'', ''orange'', ''lime'', ''cola'']
   \<and> length (targetSequence (initGame (\<lambda>k. 1) 1000 5 initial_state)) = min 5 (length BRANDS)
   \<and> mset (targetSequence (initGame (\<lambda>k. 1) 1000 5 initial_state))
       = mset (map brand_id (take (min 5 (length BRANDS)) BRANDS))
   \<and> distinct (targetSequence (initGame (\<lambda>k. 1) 1000 5 initial_state))"
proof -
  have "targetSequence (initGame (\<lambda>k. 1) 1000 5 initial_state)
     = [''water'', ''grape'', ''orange'', ''lime'', ''cola'']"
    using fresh_game_target by (simp add: fresh_game_def DEFAULT_GAME_SIZE_def)
  with initGame_target_is_permutation [of "\<lambda>k. 1" 1000 5 initial_state] show ?thesis
    by blast
qed

section \<open>Progression\<close>

lemma initGame_maxUnlockedLevel: "maxUnlockedLevel (initGame r now n s) = maxUnlockedLevel s"
  by (simp add: initGame_def Let_def playSound_def)

lemma executeMove_maxUnlockedLevel:
  "maxUnlockedLevel (executeMove src b si tgt ti s) = maxUnlockedLevel s"
  by (subst executeMove_frame) simp

lemma checkSolution_maxUnlockedLevel:
  "maxUnlockedLevel (checkSolution t_id t_stamp s)
     = (if wins s \<and> gameSize s = maxUnlockedLevel s \<and> gameSize s < length BRANDS
        then maxUnlockedLevel s + 1 else maxUnlockedLevel s)"
  by (simp add: checkSolution_def wins_def Let_def playSound_def)

lemma winTimeout_maxUnlockedLevel:
  "maxUnlockedLevel (winTimeout t_id t_stamp s) = maxUnlockedLevel s"
  by (simp add: winTimeout_def Let_def playSound_def split: list.splits)

lemma step_maxUnlockedLevel: "maxUnlockedLevel s \<le> maxUnlockedLevel (step e s)"
proof (cases e)
  case (TouchEnd released)
  then show ?thesis
    by (cases released)
       (simp_all add: handleTouchEnd_def Let_def executeMove_maxUnlockedLevel
          split: option.splits)
next
  case (ConfirmClick t_id t_stamp)
  then show ?thesis
    by (simp add: checkSolution_maxUnlockedLevel)
qed (simp_all add: handleDropOnSlot_def handleDropOnInventory_def handleTouchStart_def
      handleTouchMove_def handleInventoryClick_def handleSlotClick_def handleNextLevel_def
      nextUnlockedLevel_def handleRetryLevel_def handleSelectLevel_def timerTick_def
      timerEffect_def
      winTimeout_maxUnlockedLevel initGame_maxUnlockedLevel executeMove_maxUnlockedLevel
      playSound_def Let_def split: option.splits)

lemma run_maxUnlockedLevel: "maxUnlockedLevel s \<le> maxUnlockedLevel (run es s)"
proof (induction es arbitrary: s)
  case Nil
  then show ?case by simp
next
  case (Cons e es)
  have "maxUnlockedLevel s \<le> maxUnlockedLevel (step e s)"
    by (rule step_maxUnlockedLevel)
  also have "\<dots> \<le> maxUnlockedLevel (run es (step e s))"
    by (rule Cons.IH)
  finally show ?case by simp
qed

text \<open>
  C5. Over any sequence of events the max-unlocked level does not decrease. A winning
  confirm raises it by one exactly when the game size equals the max-unlocked level and
  that level is below the catalog size; it never changes it by anything else, and a win
  below the frontier leaves it as it was.
\<close>

theorem unlock_monotone_and_rule:
  "maxUnlockedLevel s \<le> maxUnlockedLevel (run es s)
   \<and> (wins s \<longrightarrow>
        (maxUnlockedLevel (checkSolution t_id t_stamp s) = maxUnlockedLevel s + 1
           \<longleftrightarrow> gameSize s = maxUnlockedLevel s \<and> maxUnlockedLevel s < length BRANDS)
        \<and> (maxUnlockedLevel (checkSolution t_id t_stamp s) = maxUnlockedLevel s + 1
            \<or> maxUnlockedLevel (checkSolution t_id t_stamp s) = maxUnlockedLevel s)
        \<and> (gameSize s < maxUnlockedLevel s \<longrightarrow>
             maxUnlockedLevel (checkSolution t_id t_stamp s) = maxUnlockedLevel s))"
  using run_maxUnlockedLevel [of s es]
  by (auto simp: checkSolution_maxUnlockedLevel)

lemma solved_game_board:
  "currentSlots solved_game
     = [Item ''water'', Item ''grape'', Item ''orange'', Item ''lime'', Item ''cola'']"
  by (simp add: solved_game_def handleDropOnSlot_def fresh_game_def initGame_def
      initial_state_def DEFAULT_GAME_SIZE_def BRANDS_def playSound_def executeMove_def
      Let_def js_spread_def js_set_def)

lemma solved_game_fields:
  "gameSize solved_game = 5 \<and> maxUnlockedLevel solved_game = 5
   \<and> targetSequence solved_game = [''water'', ''grape'', ''orange'', ''lime'', ''cola'']
   \<and> gameStatus solved_game = Playing"
  by (simp add: solved_game_def handleDropOnSlot_def fresh_game_def initGame_def
      initial_state_def DEFAULT_GAME_SIZE_def BRANDS_def playSound_def executeMove_def
      Let_def shuffled_def random_cmp_def mk_brand_def)

lemma solved_game_wins: "wins solved_game"
  by (simp add: wins_def solved_game_board solved_game_fields some_null_def score_def
      target_at_def)

theorem unlock_monotone_and_rule_witness:
  "wins solved_game
   \<and> gameSize solved_game = maxUnlockedLevel solved_game
   \<and> maxUnlockedLevel solved_game < length BRANDS
   \<and> maxUnlockedLevel (checkSolution 2000 2000 solved_game) = maxUnlockedLevel solved_game + 1
   \<and> maxUnlockedLevel solved_game
       \<le> maxUnlockedLevel (run [ConfirmClick 2000 2000, TimeoutFires 2500 2500,
                                   NextLevel (\<lambda>k. 1) 3000] solved_game)
   \<and> wins (solved_game\<lparr>maxUnlockedLevel := 7\<rparr>)
   \<and> gameSize (solved_game\<lparr>maxUnlockedLevel := 7\<rparr>)
       < maxUnlockedLevel (solved_game\<lparr>maxUnlockedLevel := 7\<rparr>)
   \<and> maxUnlockedLevel (checkSolution 2000 2000 (solved_game\<lparr>maxUnlockedLevel := 7\<rparr>)) = 7"
proof -
  have a: "gameSize solved_game = maxUnlockedLevel solved_game"
    and b: "maxUnlockedLevel solved_game < length BRANDS"
    by (simp_all add: solved_game_fields BRANDS_def)
  have w: "wins (solved_game\<lparr>maxUnlockedLevel := 7\<rparr>)"
    using solved_game_wins by (simp add: wins_def)
  have c: "gameSize (solved_game\<lparr>maxUnlockedLevel := 7\<rparr>)
       < maxUnlockedLevel (solved_game\<lparr>maxUnlockedLevel := 7\<rparr>)"
    by (simp add: solved_game_fields)
  from unlock_monotone_and_rule [of "solved_game\<lparr>maxUnlockedLevel := 7\<rparr>" "[]" 2000 2000] w c
  have r: "maxUnlockedLevel (checkSolution 2000 2000 (solved_game\<lparr>maxUnlockedLevel := 7\<rparr>)) = 7"
    by simp
  from unlock_monotone_and_rule
         [of solved_game "[ConfirmClick 2000 2000, TimeoutFires 2500 2500,
                           NextLevel (\<lambda>k. 1) 3000]" 2000 2000]
    solved_game_wins a b w c r
  show ?thesis by blast
qed

section \<open>The history log\<close>

lemma historyRows_entries: "map fst (historyRows h) = h"
proof -
  have "map fst (historyRows h) = map snd (zip [0..<length h] h)"
    by (simp add: historyRows_def split_def o_def)
  then show ?thesis by simp
qed

lemma historyRows_index:
  "idx < length h \<Longrightarrow> historyRows h ! idx = (h ! idx, length h - 1 - idx)"
  by (simp add: historyRows_def)

lemma checkSolution_currentSlots: "currentSlots (checkSolution t_id t_stamp s) = currentSlots s"
  by (simp add: checkSolution_def Let_def playSound_def)

text \<open>
  C6, as the code has it. A confirm on a board without \<open>null\<close> puts the new entry at the
  front of the stored log and keeps the earlier entries behind it, so a second confirm
  stands before the first. The history panel renders the stored log in its stored order,
  and its first row carries the highest attempt index.
\<close>

theorem checkSolution_prepends_history:
  assumes "Null \<notin> set (currentSlots s)"
  shows "history (checkSolution t_id t_stamp s)
           = \<lparr>h_id = t_id, arrangement = js_spread (currentSlots s),
              correctCount = score (currentSlots s) (targetSequence s),
              h_timestamp = t_stamp\<rparr> # history s
    \<and> history (checkSolution t_id' t_stamp' (checkSolution t_id t_stamp s))
           = \<lparr>h_id = t_id', arrangement = js_spread (currentSlots s),
              correctCount = score (currentSlots s) (targetSequence s),
              h_timestamp = t_stamp'\<rparr>
             # \<lparr>h_id = t_id, arrangement = js_spread (currentSlots s),
                 correctCount = score (currentSlots s) (targetSequence s),
                 h_timestamp = t_stamp\<rparr> # history s
    \<and> map fst (historyRows (history (checkSolution t_id t_stamp s)))
           = history (checkSolution t_id t_stamp s)
    \<and> snd (historyRows (history (checkSolution t_id t_stamp s)) ! 0) = length (history s)"
proof -
  have nn: "\<not> some_null (currentSlots s)"
    using assms by (simp add: some_null_def)
  have one: "history (checkSolution t_id t_stamp s)
           = \<lparr>h_id = t_id, arrangement = js_spread (currentSlots s),
              correctCount = score (currentSlots s) (targetSequence s),
              h_timestamp = t_stamp\<rparr> # history s"
    by (rule checkSolution_history [OF nn])
  have nn': "\<not> some_null (currentSlots (checkSolution t_id t_stamp s))"
    using nn by (simp add: checkSolution_currentSlots)
  have tgt: "targetSequence (checkSolution t_id t_stamp s) = targetSequence s"
    by (simp add: checkSolution_def Let_def playSound_def)
  have two: "history (checkSolution t_id' t_stamp' (checkSolution t_id t_stamp s))
           = \<lparr>h_id = t_id', arrangement = js_spread (currentSlots s),
              correctCount = score (currentSlots s) (targetSequence s),
              h_timestamp = t_stamp'\<rparr>
             # history (checkSolution t_id t_stamp s)"
    using checkSolution_history [OF nn', of t_id' t_stamp']
    by (simp add: checkSolution_currentSlots tgt)
  have lab: "snd (historyRows (history (checkSolution t_id t_stamp s)) ! 0) = length (history s)"
    by (simp add: one historyRows_index)
  show ?thesis
    using one two lab historyRows_entries by simp
qed

lemma all_wrong_fields:
  "currentSlots all_wrong
     = [Item ''cola'', Item ''lime'', Item ''grape'', Item ''orange'', Item ''water'']
   \<and> targetSequence all_wrong = [''water'', ''grape'', ''orange'', ''lime'', ''cola'']
   \<and> history all_wrong = [] \<and> gameSize all_wrong = 5"
  by (simp add: all_wrong_def fresh_game_target fresh_game_size)
     (simp add: fresh_game_def initGame_def playSound_def)

lemma all_wrong_score: "score (currentSlots all_wrong) (targetSequence all_wrong) = 0"
  by (simp add: all_wrong_fields score_def target_at_def)

lemma one_attempt_history:
  "history one_attempt
     = [\<lparr>h_id = 2000,
         arrangement = [Item ''cola'', Item ''lime'', Item ''grape'', Item ''orange'', Item ''water''],
         correctCount = 0, h_timestamp = 2001\<rparr>]"
proof -
  have "\<not> some_null (currentSlots all_wrong)"
    by (simp add: all_wrong_fields some_null_def)
  from checkSolution_history [OF this, of 2000 2001] show ?thesis
    by (simp add: one_attempt_def all_wrong_score)
       (simp add: all_wrong_fields js_spread_def)
qed

theorem checkSolution_prepends_history_witness:
  "Null \<notin> set (currentSlots all_wrong)
   \<and> map h_id (history (checkSolution 3000 3001 (checkSolution 2000 2001 all_wrong)))
       = [3000, 2000]
   \<and> snd (historyRows (history (checkSolution 2000 2001 all_wrong)) ! 0) = 0"
proof -
  have h: "Null \<notin> set (currentSlots all_wrong)"
    by (simp add: all_wrong_fields)
  note claim = checkSolution_prepends_history [OF h, of 2000 2001 3000 3001]
  from claim have "map h_id (history (checkSolution 3000 3001 (checkSolution 2000 2001 all_wrong)))
       = 3000 # 2000 # map h_id (history all_wrong)"
    by simp
  then have a: "map h_id (history (checkSolution 3000 3001 (checkSolution 2000 2001 all_wrong)))
       = [3000, 2000]"
    by (simp add: all_wrong_fields)
  from claim have "snd (historyRows (history (checkSolution 2000 2001 all_wrong)) ! 0)
       = length (history all_wrong)"
    by blast
  then have b: "snd (historyRows (history (checkSolution 2000 2001 all_wrong)) ! 0) = 0"
    by (simp add: all_wrong_fields)
  from h a b show ?thesis
    by blast
qed

text \<open>
  C6, as stated. After one earlier attempt, the log after a second confirm is not the
  earlier log with the new entry at its end: the new entry (id 3000) stands before the
  earlier one (id 2000), in the stored log and in the rows rendered from it.
\<close>

theorem history_append_counterexample:
  "history (checkSolution 3000 3001 one_attempt)
     \<noteq> history one_attempt
        @ [\<lparr>h_id = 3000,
            arrangement = [Item ''cola'', Item ''lime'', Item ''grape'', Item ''orange'', Item ''water''],
            correctCount = 0, h_timestamp = 3001\<rparr>]
   \<and> map h_id (history (checkSolution 3000 3001 one_attempt)) = [3000, 2000]
   \<and> map (h_id \<circ> fst) (historyRows (history (checkSolution 3000 3001 one_attempt)))
       = [3000, 2000]"
proof -
  have s: "currentSlots one_attempt = currentSlots all_wrong"
    and t: "targetSequence one_attempt = targetSequence all_wrong"
    by (simp_all add: one_attempt_def checkSolution_def Let_def playSound_def)
  have nn: "\<not> some_null (currentSlots one_attempt)"
    by (simp add: s all_wrong_fields some_null_def)
  have h: "history (checkSolution 3000 3001 one_attempt)
     = [\<lparr>h_id = 3000,
         arrangement = [Item ''cola'', Item ''lime'', Item ''grape'', Item ''orange'', Item ''water''],
         correctCount = 0, h_timestamp = 3001\<rparr>,
        \<lparr>h_id = 2000,
         arrangement = [Item ''cola'', Item ''lime'', Item ''grape'', Item ''orange'', Item ''water''],
         correctCount = 0, h_timestamp = 2001\<rparr>]"
    using checkSolution_history [OF nn, of 3000 3001]
    by (simp add: s t all_wrong_score one_attempt_history)
       (simp add: all_wrong_fields js_spread_def)
  have r: "map (h_id \<circ> fst) (historyRows (history (checkSolution 3000 3001 one_attempt)))
       = map h_id (history (checkSolution 3000 3001 one_attempt))"
    using historyRows_entries [of "history (checkSolution 3000 3001 one_attempt)"]
    by (metis map_map)
  show ?thesis
    by (simp add: r) (simp add: h one_attempt_history)
qed

section \<open>The records view\<close>

lemma compareRecords_ranks: "fst (compareRecords u a b) \<le> 0 \<longleftrightarrow> ranks_before a b"
  by (auto simp: compareRecords_def ranks_before_def)

lemma ranks_before_total: "\<not> ranks_before a b \<Longrightarrow> ranks_before b a"
  by (auto simp: ranks_before_def)

lemma ranks_before_trans: "ranks_before a b \<Longrightarrow> ranks_before b c \<Longrightarrow> ranks_before a c"
  by (auto simp: ranks_before_def)

lemma set_js_insert: "js_insert cmp x ys s = (zs, s') \<Longrightarrow> set zs = insert x (set ys)"
  using mset_js_insert [of cmp x ys s zs s'] by (metis set_mset_add_mset_insert set_mset_mset)

lemma sorted_js_insert:
  "sorted_wrt ranks_before ys \<Longrightarrow> js_insert compareRecords x ys u = (zs, u') \<Longrightarrow>
   sorted_wrt ranks_before zs"
proof (induction ys arbitrary: zs u u')
  case Nil
  then show ?case by auto
next
  case (Cons y ys)
  obtain c v where c: "compareRecords u x y = (c, v)"
    by (cases "compareRecords u x y")
  show ?case
  proof (cases "c \<le> 0")
    case True
    with c have xy: "ranks_before x y"
      using compareRecords_ranks [of u x y] by simp
    from Cons.prems(1) have "\<forall>z\<in>set ys. ranks_before y z"
      by simp
    with xy have "\<forall>z\<in>set ys. ranks_before x z"
      by (blast intro: ranks_before_trans)
    with Cons.prems c True xy show ?thesis
      by auto
  next
    case False
    with c have yx: "ranks_before y x"
      using compareRecords_ranks [of u x y] ranks_before_total [of x y] by simp
    obtain ws w where i: "js_insert compareRecords x ys v = (ws, w)"
      by (cases "js_insert compareRecords x ys v")
    from Cons.prems(1) have "sorted_wrt ranks_before ys"
      by simp
    from Cons.IH [OF this i] have sw: "sorted_wrt ranks_before ws" .
    from Cons.prems(1) yx have "\<forall>z\<in>set ws. ranks_before y z"
      by (auto simp: set_js_insert [OF i])
    with sw Cons.prems(2) c False i show ?thesis
      by auto
  qed
qed

lemma sorted_js_sort: "sorted_wrt ranks_before (fst (js_sort compareRecords xs u))"
proof (induction xs)
  case Nil
  then show ?case by simp
next
  case (Cons x xs)
  obtain ys v where r: "js_sort compareRecords xs u = (ys, v)"
    by (cases "js_sort compareRecords xs u")
  obtain zs w where i: "js_insert compareRecords x ys v = (zs, w)"
    by (cases "js_insert compareRecords x ys v")
  from Cons.IH r have "sorted_wrt ranks_before ys" by simp
  from sorted_js_insert [OF this i] r i show ?case by simp
qed

lemma sortedRecords_heap:
  "sortedRecords h a
     = (h\<lparr>cells := (cells h)(next_ref h := fst (js_sort compareRecords (cells h a) ())),
          next_ref := Suc (next_ref h)\<rparr>, next_ref h)"
  by (simp add: sortedRecords_def spread_copy_def sort_in_place_def)

text \<open>
  C7. Computing the records view sorts a fresh copy: the array of the \<open>records\<close> state
  (reference 0) holds the same list afterwards, and the view is a permutation of it in
  which every record ranks before every later one: harder difficulty first, then fewer
  attempts, then shorter duration. The timeout callback of a win stores the captured
  list with the new record at its end.
\<close>

theorem sortedRecords_view:
  "(case sortedRecords (records_heap s) 0 of
      (h', view) \<Rightarrow>
        view \<noteq> 0
        \<and> cells h' 0 = records s
        \<and> mset (cells h' view) = mset (records s)
        \<and> sorted_wrt ranks_before (cells h' view))
   \<and> records (winTimeout t_id t_stamp (s\<lparr>timeouts := c # rest\<rparr>))
       = c_records c
         @ [\<lparr>r_id = t_id, r_timestamp = t_stamp, attempts = length (c_newHistory c),
             durationSeconds = c_elapsedTime c, difficulty = c_gameSize c,
             r_targetSequence = c_targetSequence c\<rparr>]"
  by (simp add: sortedRecords_heap records_heap_def mset_js_sort sorted_js_sort
      winTimeout_def Let_def playSound_def)

lemma with_records_records: "records with_records = three_records"
  by (simp add: with_records_def)

theorem sortedRecords_view_witness:
  "cells (fst (sortedRecords (records_heap with_records) 0))
         (snd (sortedRecords (records_heap with_records) 0))
     = [three_records ! 1, three_records ! 2, three_records ! 0]
   \<and> cells (fst (sortedRecords (records_heap with_records) 0)) 0 = three_records
   \<and> sorted_wrt ranks_before
       (cells (fst (sortedRecords (records_heap with_records) 0))
              (snd (sortedRecords (records_heap with_records) 0)))"
proof -
  have v: "cells (fst (sortedRecords (records_heap with_records) 0))
         (snd (sortedRecords (records_heap with_records) 0))
     = [three_records ! 1, three_records ! 2, three_records ! 0]"
    by (simp add: sortedRecords_heap records_heap_def with_records_records)
       (simp add: three_records_def compareRecords_def)
  from sortedRecords_view [of with_records]
  have "cells (fst (sortedRecords (records_heap with_records) 0)) 0 = records with_records
    \<and> sorted_wrt ranks_before
       (cells (fst (sortedRecords (records_heap with_records) 0))
              (snd (sortedRecords (records_heap with_records) 0)))"
    by (simp add: split_def)
  with v show ?thesis
    by (simp add: with_records_records)
qed

section \<open>Moves outside play\<close>

lemma pointer_drop_ignored_unless_playing:
  "gameStatus s \<noteq> Playing \<Longrightarrow>
   handleDropOnSlot src b si j s = s \<and> handleDropOnInventory src b si s = s"
  by (simp add: handleDropOnSlot_def handleDropOnInventory_def)

lemma touch_start_ignored_unless_playing:
  "gameStatus s \<noteq> Playing \<Longrightarrow> handleTouchStart src b si x y s = s"
  by (simp add: handleTouchStart_def)

lemma won_with_drag_fields:
  "gameStatus won_with_drag = Won
   \<and> currentSlots won_with_drag
       = [Item ''water'', Item ''grape'', Item ''orange'', Item ''lime'', Item ''cola'']
   \<and> touchDragItem won_with_drag
       = Some \<lparr>d_source = Slot, d_brandId = ''water'', d_index = Some 0\<rparr>
   \<and> touchDragPos won_with_drag = Some (10, 10)"
  by (simp add: won_with_drag_def solved_game_def fresh_game_def initGame_def shuffled_def
      initial_state_def DEFAULT_GAME_SIZE_def BRANDS_def random_cmp_def mk_brand_def
      handleDropOnSlot_def executeMove_def js_spread_def js_set_def checkSolution_def
      some_null_def score_def target_at_def handleTouchStart_def winTimeout_def
      playSound_def Let_def)

text \<open>
  C9, on the touch path. In the state \<open>won_with_drag\<close> the game status is \<open>won\<close> and a
  touch drag begun during play is still pending. Releasing it over the inventory clears
  slot 0 and releasing it over slot 1 exchanges slots 0 and 1, while the two drop
  handlers of the pointer path return the same state unchanged.
\<close>

theorem touch_release_moves_after_win:
  "gameStatus won_with_drag = Won
   \<and> currentSlots won_with_drag
       = [Item ''water'', Item ''grape'', Item ''orange'', Item ''lime'', Item ''cola'']
   \<and> currentSlots (handleTouchEnd OverInventory won_with_drag)
       = [Null, Item ''grape'', Item ''orange'', Item ''lime'', Item ''cola'']
   \<and> currentSlots (handleTouchEnd (OverSlot 1) won_with_drag)
       = [Item ''grape'', Item ''water'', Item ''orange'', Item ''lime'', Item ''cola'']
   \<and> handleDropOnInventory Slot ''water'' (Some 0) won_with_drag = won_with_drag
   \<and> handleDropOnSlot Slot ''water'' (Some 0) 1 won_with_drag = won_with_drag"
  by (simp add: handleTouchEnd_def won_with_drag_fields Let_def executeMove_def playSound_def
      js_spread_def js_set_def js_get_def handleDropOnInventory_def handleDropOnSlot_def)

end
